theory Spec2Isabelle
  imports Complex_Main "HOL-Library.Word"
begin

section \<open>Raster images\<close>

text \<open>
  The scripts work on decoded raster images of the imaging library.  An image has a size
  and a mode; the pixel array is kept row by row, as the array library exposes it
  (shape height x width x bands).  Three modes are modelled: RGB, RGBA and the greyscale
  mode L, which stands for every mode that takes the generic conversion branch
  \<^verbatim>\<open>elif img.mode != 'RGB'\<close>.  Channel values are unsigned bytes.
\<close>

type_synonym byte = "8 word"
type_synonym rgb = "byte \<times> byte \<times> byte"
type_synonym rgba = "byte \<times> byte \<times> byte \<times> byte"
type_synonym box = "int \<times> int \<times> int \<times> int"
type_synonym mixer = "byte \<Rightarrow> byte \<Rightarrow> byte \<Rightarrow> byte"

datatype raster = RGB "rgb list list" | RGBA "rgba list list" | L "byte list list"

record image =
  width :: nat
  height :: nat
  pixels :: raster

definition wf_grid :: "nat \<Rightarrow> nat \<Rightarrow> 'a list list \<Rightarrow> bool" where
  "wf_grid w h g = (length g = h \<and> list_all (\<lambda>row. length row = w) g)"

definition wf_image :: "image \<Rightarrow> bool" where
  "wf_image img =
     (case pixels img of
        RGB g \<Rightarrow> wf_grid (width img) (height img) g
      | RGBA g \<Rightarrow> wf_grid (width img) (height img) g
      | L g \<Rightarrow> wf_grid (width img) (height img) g)"

subsection \<open>Library operations used by the scripts\<close>

text \<open>
  \<^verbatim>\<open>Image.new(mode, size, color)\<close>: a grid filled with one colour.
\<close>

definition new_grid :: "nat \<Rightarrow> nat \<Rightarrow> 'a \<Rightarrow> 'a list list" where
  "new_grid w h c = replicate h (replicate w c)"

text \<open>
  Pasting through a mask: the imaging library documents that where the mask is 255 the
  pasted value is copied as it is, where it is 0 the current value is kept, and
  intermediate values mix the two.  The mixing of intermediate values is the library's own
  arithmetic; it is taken as the parameter \<open>mix\<close> (mask, current value, pasted value).
\<close>

definition paste_mask :: "mixer \<Rightarrow> byte \<Rightarrow> byte \<Rightarrow> byte \<Rightarrow> byte" where
  "paste_mask mix m dst src = (if m = 255 then src else if m = 0 then dst else mix m dst src)"

text \<open>
  \<^verbatim>\<open>bg = Image.new('RGB', img.size, (255, 255, 255)); bg.paste(img, mask=img.split()[3])\<close>
  for an RGBA image, \<^verbatim>\<open>img.convert('RGB')\<close> for the other modes (a grey value is
  copied to the three bands), nothing for an RGB image.  This is the head of
  \<^verbatim>\<open>get_content_bounds\<close>, \<^verbatim>\<open>find_tight_content\<close> and
  \<^verbatim>\<open>remove_border_and_find_content\<close>.
\<close>

definition to_rgb :: "mixer \<Rightarrow> image \<Rightarrow> rgb list list" where
  "to_rgb mix img =
     (case pixels img of
        RGBA g \<Rightarrow> map (map (\<lambda>(r, g, b, a).
                    (paste_mask mix a 255 r, paste_mask mix a 255 g, paste_mask mix a 255 b))) g
      | RGB g \<Rightarrow> g
      | L g \<Rightarrow> map (map (\<lambda>l. (l, l, l))) g)"

text \<open>\<^verbatim>\<open>img.convert('RGBA')\<close> when the mode is not RGBA: the new alpha band is opaque.\<close>

definition to_rgba :: "image \<Rightarrow> rgba list list" where
  "to_rgba img =
     (case pixels img of
        RGBA g \<Rightarrow> g
      | RGB g \<Rightarrow> map (map (\<lambda>(r, g, b). (r, g, b, 255))) g
      | L g \<Rightarrow> map (map (\<lambda>l. (l, l, l, 255))) g)"

text \<open>
  Python's \<^verbatim>\<open>int(x)\<close> truncates towards zero.  The scripts apply it to a float; the
  model computes with exact rationals, which gives the same integer for the sizes and
  percentages the scripts use (a product far below \<open>2^53\<close>).
\<close>

definition py_int :: "rat \<Rightarrow> int" where
  "py_int x = (if 0 \<le> x then \<lfloor>x\<rfloor> else \<lceil>x\<rceil>)"

text \<open>
  A slice \<^verbatim>\<open>xs[start:stop]\<close>: a negative index counts from the end, and both indices
  are clamped to the length.
\<close>

definition slice_index :: "int \<Rightarrow> int \<Rightarrow> nat" where
  "slice_index n i = nat (if i < 0 then max 0 (i + n) else min i n)"

definition py_slice :: "int \<Rightarrow> int \<Rightarrow> 'a list \<Rightarrow> 'a list" where
  "py_slice start stop xs =
     drop (slice_index (int (length xs)) start) (take (slice_index (int (length xs)) stop) xs)"

text \<open>\<^verbatim>\<open>array.size\<close> of a height x width x 3 array.\<close>

definition array_size :: "'a list list \<Rightarrow> nat" where
  "array_size g = length (concat g) * 3"

text \<open>
  Boolean masks: \<^verbatim>\<open>~m\<close>, \<^verbatim>\<open>m1 | m2\<close>, \<^verbatim>\<open>m.any()\<close>,
  \<^verbatim>\<open>np.any(m, axis=1)\<close> (one flag per row), \<^verbatim>\<open>np.any(m, axis=0)\<close> (one flag per
  column) and \<^verbatim>\<open>np.where(v)[0]\<close> (the indices of the true entries, ascending).
\<close>

definition mask_not :: "bool list list \<Rightarrow> bool list list" where
  "mask_not m = map (map Not) m"

definition mask_or :: "bool list list \<Rightarrow> bool list list \<Rightarrow> bool list list" where
  "mask_or m1 m2 = map2 (map2 (\<or>)) m1 m2"

definition vec_any :: "bool list \<Rightarrow> bool" where
  "vec_any v = list_ex (\<lambda>b. b) v"

definition mask_any :: "bool list list \<Rightarrow> bool" where
  "mask_any m = list_ex vec_any m"

definition any_axis1 :: "bool list list \<Rightarrow> bool list" where
  "any_axis1 m = map vec_any m"

definition any_axis0 :: "bool list list \<Rightarrow> bool list" where
  "any_axis0 m =
     (case m of
        [] \<Rightarrow> []
      | r # _ \<Rightarrow> map (\<lambda>j. list_ex (\<lambda>row. row ! j) m) [0..<length r])"

definition where_true :: "bool list \<Rightarrow> nat list" where
  "where_true v = filter (\<lambda>i. v ! i) [0..<length v]"

text \<open>
  \<^verbatim>\<open>ImageChops.difference(a, b)\<close> is the absolute value of the band-wise difference;
  \<^verbatim>\<open>getbbox()\<close> is the bounding box (left, upper, right, lower; right and lower
  exclusive) of the non-zero pixels, or None when every pixel is zero.
\<close>

definition absdiff :: "byte \<Rightarrow> byte \<Rightarrow> byte" where
  "absdiff a b = (if a \<le> b then b - a else a - b)"

definition difference :: "rgb list list \<Rightarrow> rgb list list \<Rightarrow> rgb list list" where
  "difference g1 g2 =
     map2 (map2 (\<lambda>(r1, g1, b1) (r2, g2, b2). (absdiff r1 r2, absdiff g1 g2, absdiff b1 b2))) g1 g2"

definition getbbox :: "rgb list list \<Rightarrow> box option" where
  "getbbox g =
     (let nonzero = map (map (\<lambda>p. p \<noteq> (0, 0, 0))) g;
          ys = where_true (any_axis1 nonzero);
          xs = where_true (any_axis0 nonzero)
      in if \<not> mask_any nonzero then None
         else Some (int (hd xs), int (hd ys), int (last xs) + 1, int (last ys) + 1))"

text \<open>
  \<^verbatim>\<open>img.crop((x1, y1, x2, y2))\<close>: the region with exclusive right and lower edge; a
  coordinate outside the image reads as a zero pixel.  (The library rejects a box whose
  right edge is left of its left edge; the scripts only pass clamped boxes of a detected
  content box.)
\<close>

definition getpixel :: "'a \<Rightarrow> 'a list list \<Rightarrow> int \<Rightarrow> int \<Rightarrow> 'a" where
  "getpixel zero g x y =
     (if 0 \<le> y \<and> y < int (length g) \<and> 0 \<le> x \<and> x < int (length (g ! nat y))
      then g ! nat y ! nat x else zero)"

definition crop_grid :: "'a \<Rightarrow> 'a list list \<Rightarrow> box \<Rightarrow> 'a list list" where
  "crop_grid zero g = (\<lambda>(x1, y1, x2, y2).
     map (\<lambda>y. map (\<lambda>x. getpixel zero g x y) [x1..x2 - 1]) [y1..y2 - 1])"

definition crop :: "image \<Rightarrow> box \<Rightarrow> image" where
  "crop img bx =
     (case bx of (x1, y1, x2, y2) \<Rightarrow>
        \<lparr>width = nat (x2 - x1), height = nat (y2 - y1),
         pixels = (case pixels img of
                     RGB g \<Rightarrow> RGB (crop_grid (0, 0, 0) g bx)
                   | RGBA g \<Rightarrow> RGBA (crop_grid (0, 0, 0, 0) g bx)
                   | L g \<Rightarrow> L (crop_grid 0 g bx))\<rparr>)"

text \<open>
  \<^verbatim>\<open>canvas.paste(src, offset)\<close>: the pixels of \<open>src\<close> replace those of the canvas from
  the offset on, clipped to the canvas; \<open>f\<close> combines the pasted pixel with the pixel
  under it (a plain copy, a mode conversion, or a masked paste).
\<close>

definition paste_grid ::
  "('s \<Rightarrow> 'd \<Rightarrow> 'd) \<Rightarrow> 'd list list \<Rightarrow> 's list list \<Rightarrow> nat \<times> nat \<Rightarrow> 'd list list" where
  "paste_grid f canvas src = (\<lambda>(ox, oy).
     map (\<lambda>y. map (\<lambda>x.
            if oy \<le> y \<and> y < oy + length src \<and> ox \<le> x \<and> x < ox + length (src ! (y - oy))
            then f (src ! (y - oy) ! (x - ox)) (canvas ! y ! x)
            else canvas ! y ! x)
          [0..<length (canvas ! y)])
       [0..<length canvas])"

section \<open>crop_logos.py\<close>

text \<open>
  \<^verbatim>\<open>get_content_bounds(img)\<close>: the bounding box of the pixels that differ from white.
\<close>

definition get_content_bounds :: "mixer \<Rightarrow> image \<Rightarrow> box option" where
  "get_content_bounds mix img =
     (let rgb_img = to_rgb mix img;
          bg = new_grid (width img) (height img) (255, 255, 255);
          diff = difference rgb_img bg
      in getbbox diff)"

text \<open>
  Lines 48 to 60 of \<^verbatim>\<open>crop_with_padding\<close>; the other two scripts repeat them word for
  word: the content box grows by \<^verbatim>\<open>int(content_size * padding_percent / 100)\<close> on each
  side and is clamped to the image.
\<close>

definition padded_bounds :: "image \<Rightarrow> rat \<Rightarrow> box \<Rightarrow> box" where
  "padded_bounds img padding_percent = (\<lambda>(x1, y1, x2, y2).
     let content_width = x2 - x1;
         content_height = y2 - y1;
         pad_x = py_int (of_int content_width * padding_percent / 100);
         pad_y = py_int (of_int content_height * padding_percent / 100);
         new_x1 = max 0 (x1 - pad_x);
         new_y1 = max 0 (y1 - pad_y);
         new_x2 = min (int (width img)) (x2 + pad_x);
         new_y2 = min (int (height img)) (y2 + pad_y)
     in (new_x1, new_y1, new_x2, new_y2))"

text \<open>
  Lines 65 to 81 of \<^verbatim>\<open>crop_with_padding\<close>: the crop is pasted in the centre of a white
  square canvas.  The canvas is RGB for an RGB crop and RGBA otherwise; an RGBA crop is
  pasted through its own alpha band, any other crop is copied (converted to the mode of
  the canvas).
\<close>

definition to_square :: "mixer \<Rightarrow> image \<Rightarrow> image" where
  "to_square mix cropped =
     (let w = width cropped;
          h = height cropped;
          max_dim = max w h;
          offset = ((max_dim - w) div 2, (max_dim - h) div 2)
      in \<lparr>width = max_dim, height = max_dim,
          pixels =
            (case pixels cropped of
               RGB g \<Rightarrow>
                 RGB (paste_grid (\<lambda>s d. s) (new_grid max_dim max_dim (255, 255, 255)) g offset)
             | RGBA g \<Rightarrow>
                 RGBA (paste_grid
                        (\<lambda>(r, g, b, a) (dr, dg, db, da).
                           (paste_mask mix a dr r, paste_mask mix a dg g,
                            paste_mask mix a db b, paste_mask mix a da a))
                        (new_grid max_dim max_dim (255, 255, 255, 255)) g offset)
             | L g \<Rightarrow>
                 RGBA (paste_grid (\<lambda>l d. (l, l, l, 255))
                        (new_grid max_dim max_dim (255, 255, 255, 255)) g offset))\<rparr>)"

definition crop_with_padding :: "mixer \<Rightarrow> rat \<Rightarrow> image \<Rightarrow> image" where
  "crop_with_padding mix padding_percent img =
     (case get_content_bounds mix img of
        None \<Rightarrow> img
      | Some bbox \<Rightarrow> to_square mix (crop img (padded_bounds img padding_percent bbox)))"

section \<open>crop_logos_tight.py\<close>

text \<open>
  \<^verbatim>\<open>find_tight_content(img, border_threshold)\<close>: a margin of the image is ignored, the
  content mask of the interior is built (neither near white nor near black; when that is
  empty, not near white), and its bounding box is moved back to image coordinates.
\<close>

definition find_tight_content :: "mixer \<Rightarrow> rat \<Rightarrow> image \<Rightarrow> box option" where
  "find_tight_content mix border_threshold img =
     (let data = to_rgb mix img;
          w = width img;
          h = height img;
          border_x = py_int (of_nat w * border_threshold);
          border_y = py_int (of_nat h * border_threshold);
          interior_data =
            map (py_slice border_x (int w - border_x)) (py_slice border_y (int h - border_y) data)
      in if array_size interior_data = 0 then None
         else
           let is_white = map (map (\<lambda>(r, g, b). 240 < r \<and> 240 < g \<and> 240 < b)) interior_data;
               is_black = map (map (\<lambda>(r, g, b). r < 15 \<and> g < 15 \<and> b < 15)) interior_data;
               content_mask = mask_not (mask_or is_white is_black);
               content_mask = (if \<not> mask_any content_mask then mask_not is_white else content_mask)
           in if \<not> mask_any content_mask then None
              else
                let rows = any_axis1 content_mask;
                    cols = any_axis0 content_mask
                in if \<not> vec_any rows then None
                   else if \<not> vec_any cols then None
                   else
                     let y_indices = where_true rows;
                         x_indices = where_true cols
                     in if length y_indices = 0 then None
                        else if length x_indices = 0 then None
                        else
                          let interior_y_min = int (hd y_indices);
                              interior_y_max = int (last y_indices);
                              interior_x_min = int (hd x_indices);
                              interior_x_max = int (last x_indices);
                              x_min = interior_x_min + border_x;
                              x_max = interior_x_max + border_x;
                              y_min = interior_y_min + border_y;
                              y_max = interior_y_max + border_y
                          in Some (x_min, y_min, x_max + 1, y_max + 1))"

text \<open>
  \<^verbatim>\<open>crop_tight_with_padding\<close> calls \<^verbatim>\<open>find_tight_content(img)\<close> with the default
  border threshold 0.05 and keeps the rectangle.
\<close>

definition crop_tight_with_padding :: "mixer \<Rightarrow> rat \<Rightarrow> image \<Rightarrow> image" where
  "crop_tight_with_padding mix padding_percent img =
     (case find_tight_content mix (1 / 20) img of
        None \<Rightarrow> img
      | Some bbox \<Rightarrow> crop img (padded_bounds img padding_percent bbox))"

section \<open>crop_logos_v2.py\<close>

definition remove_border_and_find_content :: "mixer \<Rightarrow> rat \<Rightarrow> image \<Rightarrow> box option" where
  "remove_border_and_find_content mix border_threshold img =
     (let data = to_rgb mix img;
          w = width img;
          h = height img;
          border_x = py_int (of_nat w * border_threshold);
          border_y = py_int (of_nat h * border_threshold);
          interior_data =
            map (py_slice border_x (int w - border_x)) (py_slice border_y (int h - border_y) data)
      in if array_size interior_data = 0 then None
         else
           let is_white = map (map (\<lambda>(r, g, b). 240 < r \<and> 240 < g \<and> 240 < b)) interior_data;
               is_black = map (map (\<lambda>(r, g, b). r < 15 \<and> g < 15 \<and> b < 15)) interior_data;
               content_mask = mask_not (mask_or is_white is_black);
               content_mask = (if \<not> mask_any content_mask then mask_not is_white else content_mask)
           in if \<not> mask_any content_mask then None
              else
                let rows = any_axis1 content_mask;
                    cols = any_axis0 content_mask
                in if \<not> vec_any rows then None
                   else if \<not> vec_any cols then None
                   else
                     let y_indices = where_true rows;
                         x_indices = where_true cols
                     in if length y_indices = 0 then None
                        else if length x_indices = 0 then None
                        else
                          let interior_y_min = int (hd y_indices);
                              interior_y_max = int (last y_indices);
                              interior_x_min = int (hd x_indices);
                              interior_x_max = int (last x_indices);
                              x_min = interior_x_min + border_x;
                              x_max = interior_x_max + border_x;
                              y_min = interior_y_min + border_y;
                              y_max = interior_y_max + border_y
                          in Some (x_min, y_min, x_max + 1, y_max + 1))"

text \<open>
  Lines 119 to 130 of this script's \<^verbatim>\<open>crop_with_padding\<close>: the square canvas is always
  RGB and the crop is copied without a mask (an RGBA crop loses its alpha band in the
  conversion to the mode of the canvas).
\<close>

definition to_square_v2 :: "image \<Rightarrow> image" where
  "to_square_v2 cropped =
     (let w = width cropped;
          h = height cropped;
          max_dim = max w h;
          offset = ((max_dim - w) div 2, (max_dim - h) div 2);
          square_img = new_grid max_dim max_dim (255, 255, 255)
      in \<lparr>width = max_dim, height = max_dim,
          pixels =
            (case pixels cropped of
               RGB g \<Rightarrow> RGB (paste_grid (\<lambda>s d. s) square_img g offset)
             | RGBA g \<Rightarrow> RGB (paste_grid (\<lambda>(r, g, b, a) d. (r, g, b)) square_img g offset)
             | L g \<Rightarrow> RGB (paste_grid (\<lambda>l d. (l, l, l)) square_img g offset))\<rparr>)"

definition crop_with_padding_v2 :: "mixer \<Rightarrow> rat \<Rightarrow> image \<Rightarrow> image" where
  "crop_with_padding_v2 mix padding_percent img =
     (case remove_border_and_find_content mix (1 / 20) img of
        None \<Rightarrow> img
      | Some bbox \<Rightarrow> to_square_v2 (crop img (padded_bounds img padding_percent bbox)))"

section \<open>analyze_logos.py\<close>

text \<open>
  \<^verbatim>\<open>analyze_logo\<close>, from the decoded image on.  The content mask is
  \<^verbatim>\<open>(alpha > 50) & ((r < 240) | (g < 240) | (b < 240))\<close>; the reported bounds are the
  first and last content column and row, both inclusive.  The padding percentages and the
  \<^verbatim>\<open>needs_crop\<close> flag are floating-point values derived from these bounds and are
  not part of the model.
\<close>

record analysis =
  size_of :: "nat \<times> nat"
  content_bounds :: box
  content_size :: "int \<times> int"

definition analyze_logo :: "image \<Rightarrow> string + analysis" where
  "analyze_logo img =
     (let data = to_rgba img;
          content_mask =
            map (map (\<lambda>(r, g, b, alpha). 50 < alpha \<and> (r < 240 \<or> g < 240 \<or> b < 240))) data
      in if \<not> mask_any content_mask then Inl ''No content detected''
         else
           let rows = any_axis1 content_mask;
               cols = any_axis0 content_mask
           in if \<not> vec_any rows then Inl ''No content detected''
              else if \<not> vec_any cols then Inl ''No content detected''
              else
                let y_min = int (hd (where_true rows));
                    y_max = int (last (where_true rows));
                    x_min = int (hd (where_true cols));
                    x_max = int (last (where_true cols));
                    content_width = x_max - x_min + 1;
                    content_height = y_max - y_min + 1
                in Inr \<lparr>size_of = (width img, height img),
                        content_bounds = (x_min, y_min, x_max, y_max),
                        content_size = (content_width, content_height)\<rparr>)"

section \<open>Auxiliary notions for the proofs\<close>

text \<open>
  The two border scripts compute the same interior, the same content mask and the same
  bounding box.  The definitions below name these intermediate values; the lemmas
  \<open>find_tight_content_unfold\<close> and \<open>remove_border_unfold\<close> show that the functions
  above are built from them.
\<close>

definition border_of :: "nat \<Rightarrow> rat \<Rightarrow> int" where
  "border_of n t = py_int (of_nat n * t)"

definition interior :: "rat \<Rightarrow> image \<Rightarrow> rgb list list \<Rightarrow> rgb list list" where
  "interior t img data =
     map (py_slice (border_of (width img) t) (int (width img) - border_of (width img) t))
       (py_slice (border_of (height img) t) (int (height img) - border_of (height img) t) data)"

definition near_white :: "rgb \<Rightarrow> bool" where
  "near_white = (\<lambda>(r, g, b). 240 < r \<and> 240 < g \<and> 240 < b)"

definition near_black :: "rgb \<Rightarrow> bool" where
  "near_black = (\<lambda>(r, g, b). r < 15 \<and> g < 15 \<and> b < 15)"

definition tight_mask :: "rgb list list \<Rightarrow> bool list list" where
  "tight_mask g =
     (if mask_any (map (map (\<lambda>p. \<not> (near_white p \<or> near_black p))) g)
      then map (map (\<lambda>p. \<not> (near_white p \<or> near_black p))) g
      else map (map (\<lambda>p. \<not> near_white p)) g)"

definition mask_bounds :: "bool list list \<Rightarrow> (nat \<times> nat \<times> nat \<times> nat) option" where
  "mask_bounds m =
     (if \<not> mask_any m then None
      else if where_true (any_axis1 m) = [] then None
      else if where_true (any_axis0 m) = [] then None
      else Some (hd (where_true (any_axis0 m)), hd (where_true (any_axis1 m)),
                 last (where_true (any_axis0 m)), last (where_true (any_axis1 m))))"

definition tight_box :: "int \<Rightarrow> int \<Rightarrow> rgb list list \<Rightarrow> box option" where
  "tight_box bx by g =
     (if array_size g = 0 then None
      else case mask_bounds (tight_mask g) of
             None \<Rightarrow> None
           | Some (xa, ya, xb, yb) \<Rightarrow> Some (int xa + bx, int ya + by, int xb + bx + 1, int yb + by + 1))"

definition nonzero_mask :: "rgb list list \<Rightarrow> bool list list" where
  "nonzero_mask g = map (map (\<lambda>p. p \<noteq> (0, 0, 0))) g"

definition alpha_mask :: "rgba list list \<Rightarrow> bool list list" where
  "alpha_mask g = map (map (\<lambda>(r, g, b, alpha). 50 < alpha \<and> (r < 240 \<or> g < 240 \<or> b < 240))) g"

text \<open>
  A box with exclusive right and lower edge that is not empty and lies in the image; the
  same for bounds whose right and lower edge are inclusive; and four coordinates that all
  lie between 0 and the width or height.
\<close>

definition box_within :: "image \<Rightarrow> box \<Rightarrow> bool" where
  "box_within img = (\<lambda>(x_min, y_min, x_max, y_max).
     0 \<le> x_min \<and> x_min < x_max \<and> x_max \<le> int (width img) \<and>
     0 \<le> y_min \<and> y_min < y_max \<and> y_max \<le> int (height img))"

definition bounds_within :: "image \<Rightarrow> box \<Rightarrow> bool" where
  "bounds_within img = (\<lambda>(x_min, y_min, x_max, y_max).
     0 \<le> x_min \<and> x_min \<le> x_max \<and> x_max < int (width img) \<and>
     0 \<le> y_min \<and> y_min \<le> y_max \<and> y_max < int (height img))"


text \<open>
  The square canvas: its side, the offset at which the crop is pasted, the canvas
  positions covered by the crop, and a pixel of an image read as RGBA (an RGB or L pixel
  is opaque).
\<close>

definition square_side :: "image \<Rightarrow> nat" where
  "square_side c = max (width c) (height c)"

definition offset_x :: "image \<Rightarrow> nat" where
  "offset_x c = (square_side c - width c) div 2"

definition offset_y :: "image \<Rightarrow> nat" where
  "offset_y c = (square_side c - height c) div 2"

definition in_paste_area :: "image \<Rightarrow> nat \<Rightarrow> nat \<Rightarrow> bool" where
  "in_paste_area c x y =
     (offset_x c \<le> x \<and> x < offset_x c + width c \<and> offset_y c \<le> y \<and> y < offset_y c + height c)"

definition rgba_at :: "image \<Rightarrow> nat \<Rightarrow> nat \<Rightarrow> rgba" where
  "rgba_at img x y = to_rgba img ! y ! x"

subsection \<open>Sample inputs\<close>

text \<open>
  A mixing function for the examples (a rounded linear blend) and small images: one red
  pixel in a white field, a white opaque RGBA image, a pale grey pixel, black images, a
  crop with a transparent pixel, a one-row crop, and the 100 x 100 white image with a
  black square on the pixels \<open>40 \<le> x, y < 60\<close>.
\<close>

definition round_mix :: mixer where
  "round_mix m d s = word_of_nat ((unat s * unat m + unat d * (255 - unat m) + 127) div 255)"

definition dot_image :: image where
  "dot_image = \<lparr>width = 3, height = 3, pixels = RGB
     [[(255, 255, 255), (255, 255, 255), (255, 255, 255)],
      [(255, 255, 255), (200, 30, 30), (255, 255, 255)],
      [(255, 255, 255), (255, 255, 255), (255, 255, 255)]]\<rparr>"

definition white_image :: image where
  "white_image = \<lparr>width = 2, height = 2, pixels = RGBA
     [[(255, 255, 255, 255), (255, 255, 255, 255)],
      [(255, 255, 255, 255), (255, 255, 255, 255)]]\<rparr>"



definition dark_image :: image where
  "dark_image = \<lparr>width = 2, height = 2, pixels = RGB [[(0, 0, 0), (0, 0, 0)], [(0, 0, 0), (0, 0, 0)]]\<rparr>"


definition ghost_crop :: image where
  "ghost_crop = \<lparr>width = 1, height = 2, pixels = RGBA [[(10, 20, 30, 0)], [(0, 0, 0, 255)]]\<rparr>"

definition bar_crop :: image where
  "bar_crop = \<lparr>width = 3, height = 1, pixels = RGB [[(1, 2, 3), (4, 5, 6), (7, 8, 9)]]\<rparr>"

definition square_image :: image where
  "square_image = \<lparr>width = 100, height = 100, pixels = RGB
     (map (\<lambda>y. map (\<lambda>x. if 40 \<le> x \<and> x < 60 \<and> 40 \<le> y \<and> y < 60
                          then (0, 0, 0) else (255, 255, 255)) [0..<100]) [0..<100])\<rparr>"

section \<open>Lemmas\<close>

subsection \<open>Masks and index vectors\<close>

lemma vec_any_iff: "vec_any v \<longleftrightarrow> (\<exists>i<length v. v ! i)"
proof -
  have "vec_any v \<longleftrightarrow> (\<exists>b\<in>set v. b)" by (simp add: vec_any_def list_ex_iff)
  also have "\<dots> \<longleftrightarrow> (\<exists>i<length v. v ! i)" by (metis in_set_conv_nth)
  finally show ?thesis .
qed

lemma set_where_true: "set (where_true v) = {i. i < length v \<and> v ! i}"
  by (auto simp: where_true_def)

lemma vec_any_where: "vec_any v \<longleftrightarrow> where_true v \<noteq> []"
proof -
  have "where_true v \<noteq> [] \<longleftrightarrow> set (where_true v) \<noteq> {}" by simp
  also have "\<dots> \<longleftrightarrow> (\<exists>i<length v. v ! i)" unfolding set_where_true by blast
  finally show ?thesis by (simp add: vec_any_iff)
qed

lemma sorted_where_true: "sorted (where_true v)"
  by (simp add: where_true_def sorted_wrt_filter)

lemma hd_le_last_sorted:
  assumes "sorted (xs::nat list)" "xs \<noteq> []"
  shows "hd xs \<le> last xs"
proof -
  have "xs ! 0 \<le> xs ! (length xs - 1)"
    using assms by (intro sorted_nth_mono) auto
  then show ?thesis using assms(2) by (simp add: hd_conv_nth last_conv_nth)
qed

lemma where_true_hd_le_last: "where_true v \<noteq> [] \<Longrightarrow> hd (where_true v) \<le> last (where_true v)"
  by (rule hd_le_last_sorted[OF sorted_where_true])

lemma where_true_last_less: "where_true v \<noteq> [] \<Longrightarrow> last (where_true v) < length v"
proof -
  assume ne: "where_true v \<noteq> []"
  then have "last (where_true v) \<in> set (where_true v)" by (rule last_in_set)
  then show ?thesis by (simp add: set_where_true)
qed

lemma upt_split3: "a < n \<Longrightarrow> [0..<n] = [0..<a] @ a # [Suc a..<n]"
proof -
  assume a: "a < n"
  have "[0..<n] = [0..<a] @ [a..<n]"
    using a by (metis le_add_diff_inverse less_imp_le_nat upt_add_eq_append zero_le)
  moreover have "[a..<n] = a # [Suc a..<n]"
    using a by (simp add: upt_conv_Cons)
  ultimately show ?thesis by simp
qed

lemma hd_where_true_eqI:
  assumes "a < length v" "v ! a" "\<And>i. i < a \<Longrightarrow> \<not> v ! i"
  shows "hd (where_true v) = a"
proof -
  have "filter (\<lambda>i. v ! i) [0..<a] = []"
    using assms(3) by (auto simp: filter_empty_conv)
  then show ?thesis
    unfolding where_true_def upt_split3[OF assms(1)] using assms(2) by simp
qed

lemma last_where_true_eqI:
  assumes "b < length v" "v ! b" "\<And>i. b < i \<Longrightarrow> i < length v \<Longrightarrow> \<not> v ! i"
  shows "last (where_true v) = b"
proof -
  have "filter (\<lambda>i. v ! i) [Suc b..<length v] = []"
    using assms(3) by (auto simp: filter_empty_conv)
  then show ?thesis
    unfolding where_true_def upt_split3[OF assms(1)] using assms(2) by simp
qed

lemma length_any_axis1: "length (any_axis1 m) = length m"
  by (simp add: any_axis1_def)

lemma nth_any_axis1: "i < length m \<Longrightarrow> any_axis1 m ! i \<longleftrightarrow> (\<exists>j<length (m ! i). m ! i ! j)"
  by (simp add: any_axis1_def vec_any_iff)

lemma length_any_axis0: "length (any_axis0 m) = (if m = [] then 0 else length (hd m))"
  by (simp add: any_axis0_def split: list.splits)

lemma nth_any_axis0:
  assumes "m \<noteq> []" "j < length (hd m)"
  shows "any_axis0 m ! j \<longleftrightarrow> (\<exists>i<length m. m ! i ! j)"
proof -
  obtain r rs where m: "m = r # rs" using assms(1) by (cases m) auto
  have "any_axis0 m ! j = list_ex (\<lambda>row. row ! j) m"
    using assms(2) unfolding m any_axis0_def by (simp del: upt_Suc)
  also have "\<dots> \<longleftrightarrow> (\<exists>row\<in>set m. row ! j)" by (simp add: list_ex_iff)
  also have "\<dots> \<longleftrightarrow> (\<exists>i<length m. m ! i ! j)" by (metis in_set_conv_nth)
  finally show ?thesis .
qed

lemma mask_any_iff: "mask_any m \<longleftrightarrow> (\<exists>i<length m. \<exists>j<length (m ! i). m ! i ! j)"
proof -
  have "mask_any m \<longleftrightarrow> (\<exists>row\<in>set m. \<exists>j<length row. row ! j)"
    by (simp add: mask_any_def list_ex_iff vec_any_iff)
  also have "\<dots> \<longleftrightarrow> (\<exists>i<length m. \<exists>j<length (m ! i). m ! i ! j)"
    by (metis in_set_conv_nth)
  finally show ?thesis .
qed

subsection \<open>Truncation and slices\<close>

lemma py_int_ge0: "0 \<le> x \<Longrightarrow> 0 \<le> py_int x"
  by (simp add: py_int_def)

lemma set_py_slice: "set (py_slice a b xs) \<subseteq> set xs"
  unfolding py_slice_def by (meson set_drop_subset set_take_subset subset_trans)


lemma length_py_slice: 
  "length (py_slice a b xs) = min (slice_index (int (length xs)) b) (length xs) - slice_index (int (length xs)) a"
  by (simp add: py_slice_def)

lemma length_py_slice_border:
  assumes "0 \<le> b"
  shows "int (length (py_slice b (int (length xs) - b) xs)) = max 0 (int (length xs) - 2 * b)"
proof (cases "int (length xs) - b < 0")
  case True
  then have "slice_index (int (length xs)) b = length xs"
    using assms by (simp add: slice_index_def min_def)
  then show ?thesis using True by (simp add: length_py_slice)
next
  case False
  then have "slice_index (int (length xs)) (int (length xs) - b) = nat (int (length xs) - b)"
    using assms by (simp add: slice_index_def min_def)
  moreover have "slice_index (int (length xs)) b = nat b"
    using assms False by (simp add: slice_index_def min_def)
  ultimately show ?thesis using False assms by (simp add: length_py_slice)
qed

subsection \<open>The border scripts in terms of the auxiliary notions\<close>

lemma map2_same: "map2 f (map g xs) (map h xs) = map (\<lambda>x. f (g x) (h x)) xs"
  by (induction xs) auto

lemma mask_combine:
  "mask_not (mask_or (map (map P) g) (map (map Q) g)) = map (map (\<lambda>p. \<not> (P p \<or> Q p))) g"
  by (simp add: mask_not_def mask_or_def map2_same)

lemma mask_not_map: "mask_not (map (map P) g) = map (map (\<lambda>p. \<not> P p)) g"
  by (simp add: mask_not_def)

lemma find_tight_content_unfold:
  "find_tight_content mix t img =
     tight_box (border_of (width img) t) (border_of (height img) t) (interior t img (to_rgb mix img))"
  unfolding find_tight_content_def tight_box_def mask_bounds_def tight_mask_def interior_def
    border_of_def Let_def mask_combine mask_not_map near_white_def near_black_def vec_any_where
  by (simp add: case_prod_unfold)

lemma remove_border_unfold:
  "remove_border_and_find_content mix t img =
     tight_box (border_of (width img) t) (border_of (height img) t) (interior t img (to_rgb mix img))"
  unfolding remove_border_and_find_content_def tight_box_def mask_bounds_def tight_mask_def interior_def
    border_of_def Let_def mask_combine mask_not_map near_white_def near_black_def vec_any_where
  by (simp add: case_prod_unfold)

lemma mask_bounds_SomeD:
  assumes "mask_bounds m = Some (xa, ya, xb, yb)"
  shows "xa \<le> xb \<and> ya \<le> yb \<and> yb < length m \<and> xb < length (hd m) \<and> m \<noteq> []"
proof -
  let ?xs = "where_true (any_axis0 m)" and ?ys = "where_true (any_axis1 m)"
  from assms have ne: "?xs \<noteq> []" "?ys \<noteq> []"
    and eq: "xa = hd ?xs" "ya = hd ?ys" "xb = last ?xs" "yb = last ?ys"
    by (auto simp: mask_bounds_def split: if_splits)
  have "xb < length (any_axis0 m)" unfolding eq by (rule where_true_last_less[OF ne(1)])
  then have "m \<noteq> [] \<and> xb < length (hd m)" by (auto simp: length_any_axis0 split: if_splits)
  moreover have "yb < length m"
    unfolding eq using where_true_last_less[OF ne(2)] by (simp add: length_any_axis1)
  moreover have "xa \<le> xb" "ya \<le> yb"
    unfolding eq by (rule where_true_hd_le_last[OF ne(1)], rule where_true_hd_le_last[OF ne(2)])
  ultimately show ?thesis by simp
qed

subsection \<open>Well-formed grids and the bounding box of a mask\<close>

lemma wf_grid_map: "wf_grid w h (map (map f) g) = wf_grid w h g"
  by (simp add: wf_grid_def list_all_iff)

lemma wf_to_rgb: "wf_image img \<Longrightarrow> wf_grid (width img) (height img) (to_rgb mix img)"
  by (simp add: wf_image_def to_rgb_def wf_grid_map split: raster.splits)

lemma wf_to_rgba: "wf_image img \<Longrightarrow> wf_grid (width img) (height img) (to_rgba img)"
  by (simp add: wf_image_def to_rgba_def wf_grid_map split: raster.splits)

lemma wf_grid_hd: "wf_grid w h g \<Longrightarrow> g \<noteq> [] \<Longrightarrow> length (hd g) = w"
  by (cases g) (simp_all add: wf_grid_def)

lemma mask_any_axes:
  assumes "wf_grid w h m" "mask_any m"
  shows "where_true (any_axis1 m) \<noteq> [] \<and> where_true (any_axis0 m) \<noteq> []"
proof -
  from assms(2) obtain i j where ij: "i < length m" "j < length (m ! i)" "m ! i ! j"
    unfolding mask_any_iff by blast
  have ne: "m \<noteq> []" using ij(1) by auto
  have "length (m ! i) = w" using assms(1) ij(1) by (simp add: wf_grid_def list_all_length)
  then have j: "j < length (hd m)" using ij(2) wf_grid_hd[OF assms(1) ne] by simp
  have "any_axis1 m ! i" using ij by (auto simp: nth_any_axis1)
  then have "vec_any (any_axis1 m)" using ij(1) unfolding vec_any_iff length_any_axis1 by blast
  moreover have "any_axis0 m ! j" using ij nth_any_axis0[OF ne j] by blast
  then have "vec_any (any_axis0 m)" using j ne unfolding vec_any_iff length_any_axis0 by auto
  ultimately show ?thesis by (simp add: vec_any_where)
qed

lemma wf_nonzero_mask: "wf_grid w h (nonzero_mask g) = wf_grid w h g"
  by (simp add: nonzero_mask_def wf_grid_map)

lemma getbbox_unfold:
  assumes "wf_grid w h g"
  shows "getbbox g = (case mask_bounds (nonzero_mask g) of
                  None \<Rightarrow> None
                | Some (xa, ya, xb, yb) \<Rightarrow> Some (int xa, int ya, int xb + 1, int yb + 1))"
proof (cases "mask_any (nonzero_mask g)")
  case True
  with mask_any_axes[of w h "nonzero_mask g"] assms show ?thesis
    by (simp add: getbbox_def mask_bounds_def Let_def wf_nonzero_mask nonzero_mask_def[symmetric])
next
  case False
  then show ?thesis
    by (simp add: getbbox_def mask_bounds_def Let_def nonzero_mask_def[symmetric])
qed

lemma map2_replicate_right: "length xs = n \<Longrightarrow> map2 f xs (replicate n c) = map (\<lambda>x. f x c) xs"
  by (induction xs arbitrary: n) auto

lemma difference_white:
  assumes "wf_grid w h g"
  shows "difference g (new_grid w h c) =
     map (map (\<lambda>p. (case p of (r1, g1, b1) \<Rightarrow> \<lambda>(r2, g2, b2).
                    (absdiff r1 r2, absdiff g1 g2, absdiff b1 b2)) c)) g"
proof -
  have len: "length g = h" and rows: "\<And>row. row \<in> set g \<Longrightarrow> length row = w"
    using assms by (auto simp: wf_grid_def list_all_iff)
  show ?thesis
    unfolding difference_def new_grid_def map2_replicate_right[OF len]
    by (rule map_cong[OF refl]) (simp add: map2_replicate_right[OF rows])
qed

lemma wf_difference:
  "wf_grid w h g \<Longrightarrow> wf_grid w h (difference g (new_grid w h c))"
  by (simp add: difference_white wf_grid_map)

lemma mask_bounds_within:
  assumes "mask_bounds m = Some (xa, ya, xb, yb)" "wf_grid w h m"
  shows "xa \<le> xb \<and> ya \<le> yb \<and> yb < h \<and> xb < w"
proof -
  from mask_bounds_SomeD[OF assms(1)] have *: "xa \<le> xb" "ya \<le> yb" "yb < length m" 
     "xb < length (hd m)" "m \<noteq> []" by auto
  with wf_grid_hd[OF assms(2)] assms(2) show ?thesis by (simp add: wf_grid_def)
qed

lemma get_content_bounds_within:
  assumes "wf_image img" "get_content_bounds mix img = Some b"
  shows "box_within img b"
proof -
  let ?d = "difference (to_rgb mix img) (new_grid (width img) (height img) (255, 255, 255))"
  have wf: "wf_grid (width img) (height img) ?d"
    by (rule wf_difference[OF wf_to_rgb[OF assms(1)]])
  from assms(2) have "getbbox ?d = Some b" by (simp add: get_content_bounds_def Let_def)
  then obtain xa ya xb yb where mb: "mask_bounds (nonzero_mask ?d) = Some (xa, ya, xb, yb)"
    and b: "b = (int xa, int ya, int xb + 1, int yb + 1)"
    unfolding getbbox_unfold[OF wf] by (auto split: option.splits)
  from mask_bounds_within[OF mb] wf have "xa \<le> xb \<and> ya \<le> yb \<and> yb < height img \<and> xb < width img"
    by (simp add: wf_nonzero_mask)
  then show ?thesis unfolding b box_within_def by simp
qed

lemma analyze_logo_unfold:
  assumes "wf_image img"
  shows "analyze_logo img =
     (case mask_bounds (alpha_mask (to_rgba img)) of
        None \<Rightarrow> Inl ''No content detected''
      | Some (xa, ya, xb, yb) \<Rightarrow>
          Inr \<lparr>size_of = (width img, height img),
               content_bounds = (int xa, int ya, int xb, int yb),
               content_size = (int xb - int xa + 1, int yb - int ya + 1)\<rparr>)"
proof -
  have wf: "wf_grid (width img) (height img) (alpha_mask (to_rgba img))"
    using wf_to_rgba[OF assms] by (simp add: alpha_mask_def wf_grid_map)
  show ?thesis
  proof (cases "mask_any (alpha_mask (to_rgba img))")
    case True
    with mask_any_axes[OF wf] show ?thesis
      by (simp add: analyze_logo_def mask_bounds_def Let_def alpha_mask_def[symmetric] vec_any_where)
  next
    case False
    then show ?thesis
      by (simp add: analyze_logo_def mask_bounds_def Let_def alpha_mask_def[symmetric])
  qed
qed

lemma analyze_logo_within:
  assumes "wf_image img" "analyze_logo img = Inr a"
  shows "bounds_within img (content_bounds a)"
proof -
  have wf: "wf_grid (width img) (height img) (alpha_mask (to_rgba img))"
    using wf_to_rgba[OF assms(1)] by (simp add: alpha_mask_def wf_grid_map)
  from assms(2) obtain xa ya xb yb where mb: "mask_bounds (alpha_mask (to_rgba img)) = Some (xa, ya, xb, yb)"
    and b: "content_bounds a = (int xa, int ya, int xb, int yb)"
    unfolding analyze_logo_unfold[OF assms(1)] by (auto split: option.splits)
  from mask_bounds_within[OF mb wf] show ?thesis unfolding b bounds_within_def by simp
qed

subsection \<open>Boxes of the border scripts\<close>

lemma wf_tight_mask: "wf_grid w h (tight_mask g) = wf_grid w h g"
  by (simp add: tight_mask_def wf_grid_map)

lemma wf_interior:
  assumes "wf_grid (width img) (height img) data" "0 \<le> t"
  shows "wf_grid (nat (int (width img) - 2 * border_of (width img) t))
           (nat (int (height img) - 2 * border_of (height img) t)) (interior t img data)"
proof -
  let ?bx = "border_of (width img) t" and ?by = "border_of (height img) t"
  have bx: "0 \<le> ?bx" and "by": "0 \<le> ?by"
    using assms(2) by (simp_all add: border_of_def py_int_ge0)
  have len: "length data = height img"
    and rows: "\<And>row. row \<in> set data \<Longrightarrow> length row = width img"
    using assms(1) by (auto simp: wf_grid_def list_all_iff)
  have "int (length (py_slice ?by (int (height img) - ?by) data)) = max 0 (int (height img) - 2 * ?by)"
    using length_py_slice_border[OF "by", of data] by (simp add: len)
  then have h: "length (interior t img data) = nat (int (height img) - 2 * ?by)"
    by (simp add: interior_def)
  have "length row = nat (int (width img) - 2 * ?bx)" if "row \<in> set (interior t img data)" for row
  proof -
    from that obtain r where r0: "r \<in> set (py_slice ?by (int (height img) - ?by) data)"
      and row: "row = py_slice ?bx (int (width img) - ?bx) r"
      unfolding interior_def by auto
    have r: "r \<in> set data" by (rule subsetD[OF set_py_slice r0])
    have "int (length row) = max 0 (int (width img) - 2 * ?bx)"
      unfolding row using length_py_slice_border[OF bx, of r] by (simp add: rows[OF r])
    then show ?thesis by simp
  qed
  with h show ?thesis by (simp add: wf_grid_def list_all_iff)
qed

lemma tight_box_within:
  assumes "tight_box bx by g = Some b" "wf_grid (nat (int w - 2 * bx)) (nat (int h - 2 * by)) g"
    "0 \<le> bx" "0 \<le> by"
  shows "(case b of (x_min, y_min, x_max, y_max) \<Rightarrow>
     0 \<le> x_min \<and> x_min < x_max \<and> x_max \<le> int w \<and> 0 \<le> y_min \<and> y_min < y_max \<and> y_max \<le> int h)"
proof -
  from assms(1) obtain xa ya xb yb where mb: "mask_bounds (tight_mask g) = Some (xa, ya, xb, yb)"
    and b: "b = (int xa + bx, int ya + by, int xb + bx + 1, int yb + by + 1)"
    by (auto simp: tight_box_def split: if_splits option.splits)
  have "xa \<le> xb \<and> ya \<le> yb \<and> yb < nat (int h - 2 * by) \<and> xb < nat (int w - 2 * bx)"
    by (rule mask_bounds_within[OF mb]) (simp add: wf_tight_mask assms(2))
  then show ?thesis unfolding b using assms(3,4) by auto
qed

lemma tight_box_extent:
  assumes "tight_box bx by g = Some (x1, y1, x2, y2)"
  shows "1 \<le> x2 - x1 \<and> 1 \<le> y2 - y1"
proof -
  from assms obtain xa ya xb yb where mb: "mask_bounds (tight_mask g) = Some (xa, ya, xb, yb)"
    and b: "x1 = int xa + bx" "y1 = int ya + by" "x2 = int xb + bx + 1" "y2 = int yb + by + 1"
    by (auto simp: tight_box_def split: if_splits option.splits)
  from mask_bounds_SomeD[OF mb] show ?thesis unfolding b by simp
qed

lemma find_tight_content_within:
  assumes "wf_image img" "0 \<le> t" "find_tight_content mix t img = Some b"
  shows "box_within img b"
  using tight_box_within[OF assms(3)[unfolded find_tight_content_unfold]
      wf_interior[OF wf_to_rgb[OF assms(1)] assms(2)]] assms(2)
  by (simp add: box_within_def border_of_def py_int_ge0)

lemma get_content_bounds_extent:
  assumes "wf_image img" "get_content_bounds mix img = Some (x1, y1, x2, y2)"
  shows "1 \<le> x2 - x1 \<and> 1 \<le> y2 - y1"
  using get_content_bounds_within[OF assms] by (simp add: box_within_def)


subsection \<open>Pasting on a fresh canvas\<close>

lemma length_paste_grid: "length (paste_grid f canvas src off) = length canvas"
  by (cases off) (simp add: paste_grid_def)

lemma length_nth_paste_grid:
  "y < length canvas \<Longrightarrow> length (paste_grid f canvas src off ! y) = length (canvas ! y)"
  by (cases off) (simp add: paste_grid_def)

lemma nth_paste_grid:
  assumes "y < length canvas" "x < length (canvas ! y)"
  shows "paste_grid f canvas src (ox, oy) ! y ! x =
     (if oy \<le> y \<and> y < oy + length src \<and> ox \<le> x \<and> x < ox + length (src ! (y - oy))
      then f (src ! (y - oy) ! (x - ox)) (canvas ! y ! x) else canvas ! y ! x)"
  using assms by (simp add: paste_grid_def)

lemma nth_new_grid: "y < h \<Longrightarrow> x < w \<Longrightarrow> new_grid w h c ! y ! x = c"
  by (simp add: new_grid_def)

lemma wf_new_grid: "wf_grid w h (new_grid w h c)"
  by (simp add: wf_grid_def new_grid_def list_all_iff)

lemma wf_paste_grid: "wf_grid w h canvas \<Longrightarrow> wf_grid w h (paste_grid f canvas src off)"
  by (auto simp: wf_grid_def list_all_length length_paste_grid length_nth_paste_grid)

lemma wf_gridD: "wf_grid w h g \<Longrightarrow> length g = h \<and> (\<forall>y<h. length (g ! y) = w)"
  by (auto simp: wf_grid_def list_all_length)

lemma paste_new_grid_at:
  assumes "wf_grid w h src" "x < n" "y < n"
  shows "paste_grid f (new_grid n n c) src (ox, oy) ! y ! x =
     (if oy \<le> y \<and> y < oy + h \<and> ox \<le> x \<and> x < ox + w
      then f (src ! (y - oy) ! (x - ox)) c else c)"
proof -
  have len: "length src = h" and rows: "\<And>i. i < h \<Longrightarrow> length (src ! i) = w"
    using wf_gridD[OF assms(1)] by auto
  have c: "y < length (new_grid n n c)" "x < length (new_grid n n c ! y)"
    using assms(2,3) by (simp_all add: new_grid_def)
  show ?thesis
  proof (cases "oy \<le> y \<and> y < oy + h")
    case True
    then have "y - oy < h" by arith
    from rows[OF this] True show ?thesis
      unfolding nth_paste_grid[OF c] nth_new_grid[OF assms(3,2)] len by simp
  next
    case False
    then show ?thesis
      unfolding nth_paste_grid[OF c] nth_new_grid[OF assms(3,2)] len by auto
  qed
qed

lemma width_to_square: "width (to_square mix c) = square_side c"
  and height_to_square: "height (to_square mix c) = square_side c"
  by (simp_all add: to_square_def square_side_def Let_def)

lemma width_to_square_v2: "width (to_square_v2 c) = square_side c"
  and height_to_square_v2: "height (to_square_v2 c) = square_side c"
  by (simp_all add: to_square_v2_def square_side_def Let_def)

lemma wf_to_square: "wf_image (to_square mix c)"
  by (simp add: wf_image_def to_square_def Let_def wf_paste_grid wf_new_grid split: raster.splits)

lemma wf_to_square_v2: "wf_image (to_square_v2 c)"
  by (simp add: wf_image_def to_square_v2_def Let_def wf_paste_grid wf_new_grid split: raster.splits)

lemma paste_mask_opaque: "paste_mask mix 255 d s = s"
  by (simp add: paste_mask_def)

lemma rgba_at_to_square:
  assumes "wf_image c" "x < square_side c" "y < square_side c"
  shows "rgba_at (to_square mix c) x y =
     (if in_paste_area c x y
      then (case rgba_at c (x - offset_x c) (y - offset_y c) of (r, g, b, a) \<Rightarrow>
              (paste_mask mix a 255 r, paste_mask mix a 255 g,
               paste_mask mix a 255 b, paste_mask mix a 255 a))
      else (255, 255, 255, 255))"
proof (cases "pixels c")
  case (RGB g)
  then have wf: "wf_grid (width c) (height c) g" using assms(1) by (simp add: wf_image_def)
  have len: "length g = height c" and rows: "\<And>i. i < height c \<Longrightarrow> length (g ! i) = width c"
    using wf_gridD[OF wf] by auto
  have "rgba_at (to_square mix c) x y =
      (case paste_grid (\<lambda>s d. s) (new_grid (square_side c) (square_side c) (255, 255, 255)) g
              (offset_x c, offset_y c) ! y ! x of (r, g, b) \<Rightarrow> (r, g, b, 255))"
    using assms(2,3) RGB
    by (simp add: rgba_at_def to_rgba_def to_square_def Let_def square_side_def[symmetric]
        offset_x_def[symmetric] offset_y_def[symmetric] length_paste_grid length_nth_paste_grid
        new_grid_def case_prod_unfold)
  also have "\<dots> = (if in_paste_area c x y
      then (case g ! (y - offset_y c) ! (x - offset_x c) of (r, g, b) \<Rightarrow> (r, g, b, 255))
      else (255, 255, 255, 255))"
    unfolding paste_new_grid_at[OF wf assms(2,3)] in_paste_area_def by auto
  also have "\<dots> = (if in_paste_area c x y
      then (case rgba_at c (x - offset_x c) (y - offset_y c) of (r, g, b, a) \<Rightarrow>
              (paste_mask mix a 255 r, paste_mask mix a 255 g,
               paste_mask mix a 255 b, paste_mask mix a 255 a))
      else (255, 255, 255, 255))"
  proof (cases "in_paste_area c x y")
    case True
    then have "y - offset_y c < height c" "x - offset_x c < width c"
      unfolding in_paste_area_def by arith+
    then show ?thesis
      using RGB len rows
      by (simp add: rgba_at_def to_rgba_def case_prod_unfold paste_mask_opaque)
  qed simp
  finally show ?thesis .
next
  case (RGBA g)
  then have wf: "wf_grid (width c) (height c) g" using assms(1) by (simp add: wf_image_def)
  have "rgba_at (to_square mix c) x y =
      paste_grid (\<lambda>(r, g, b, a) (dr, dg, db, da).
                           (paste_mask mix a dr r, paste_mask mix a dg g,
                            paste_mask mix a db b, paste_mask mix a da a))
         (new_grid (square_side c) (square_side c) (255, 255, 255, 255)) g
              (offset_x c, offset_y c) ! y ! x"
    using RGBA
    by (simp add: rgba_at_def to_rgba_def to_square_def Let_def square_side_def[symmetric]
        offset_x_def[symmetric] offset_y_def[symmetric])
  also have "\<dots> = (if in_paste_area c x y
      then (case rgba_at c (x - offset_x c) (y - offset_y c) of (r, g, b, a) \<Rightarrow>
              (paste_mask mix a 255 r, paste_mask mix a 255 g,
               paste_mask mix a 255 b, paste_mask mix a 255 a))
      else (255, 255, 255, 255))"
    unfolding paste_new_grid_at[OF wf assms(2,3)] in_paste_area_def
    using RGBA by (auto simp: rgba_at_def to_rgba_def case_prod_unfold)
  finally show ?thesis .
next
  case (L g)
  then have wf: "wf_grid (width c) (height c) g" using assms(1) by (simp add: wf_image_def)
  have len: "length g = height c" and rows: "\<And>i. i < height c \<Longrightarrow> length (g ! i) = width c"
    using wf_gridD[OF wf] by auto
  have "rgba_at (to_square mix c) x y =
      paste_grid (\<lambda>l d. (l, l, l, 255))
         (new_grid (square_side c) (square_side c) (255, 255, 255, 255)) g
              (offset_x c, offset_y c) ! y ! x"
    using L
    by (simp add: rgba_at_def to_rgba_def to_square_def Let_def square_side_def[symmetric]
        offset_x_def[symmetric] offset_y_def[symmetric])
  also have "\<dots> = (if in_paste_area c x y
      then (case g ! (y - offset_y c) ! (x - offset_x c) of l \<Rightarrow> (l, l, l, 255))
      else (255, 255, 255, 255))"
    unfolding paste_new_grid_at[OF wf assms(2,3)] in_paste_area_def by auto
  also have "\<dots> = (if in_paste_area c x y
      then (case rgba_at c (x - offset_x c) (y - offset_y c) of (r, g, b, a) \<Rightarrow>
              (paste_mask mix a 255 r, paste_mask mix a 255 g,
               paste_mask mix a 255 b, paste_mask mix a 255 a))
      else (255, 255, 255, 255))"
  proof (cases "in_paste_area c x y")
    case True
    then have "y - offset_y c < height c" "x - offset_x c < width c"
      unfolding in_paste_area_def by arith+
    then show ?thesis
      using L len rows
      by (simp add: rgba_at_def to_rgba_def case_prod_unfold paste_mask_opaque)
  qed simp
  finally show ?thesis .
qed

lemma rgba_at_to_square_v2:
  assumes "wf_image c" "x < square_side c" "y < square_side c"
  shows "rgba_at (to_square_v2 c) x y =
     (if in_paste_area c x y
      then (case rgba_at c (x - offset_x c) (y - offset_y c) of (r, g, b, a) \<Rightarrow> (r, g, b, 255))
      else (255, 255, 255, 255))"
proof -
  have inside: "y - offset_y c < height c \<and> x - offset_x c < width c" if "in_paste_area c x y"
    using that unfolding in_paste_area_def by arith
  have sz: "y < length (new_grid (square_side c) (square_side c) (255 :: byte, 255 :: byte, 255 :: byte))"
    "x < length (new_grid (square_side c) (square_side c) (255 :: byte, 255 :: byte, 255 :: byte) ! y)"
    using assms(2,3) by (simp_all add: new_grid_def)
  show ?thesis
  proof (cases "pixels c")
    case (RGB g)
    then have wf: "wf_grid (width c) (height c) g" using assms(1) by (simp add: wf_image_def)
    have "rgba_at (to_square_v2 c) x y =
        (case paste_grid (\<lambda>s d. s) (new_grid (square_side c) (square_side c) (255, 255, 255)) g
                (offset_x c, offset_y c) ! y ! x of (r, g, b) \<Rightarrow> (r, g, b, 255))"
      using sz RGB
      by (simp add: rgba_at_def to_rgba_def to_square_v2_def Let_def square_side_def[symmetric]
          offset_x_def[symmetric] offset_y_def[symmetric] length_paste_grid length_nth_paste_grid
          case_prod_unfold)
    also have "\<dots> = (if in_paste_area c x y
        then (case g ! (y - offset_y c) ! (x - offset_x c) of (r, g, b) \<Rightarrow> (r, g, b, 255))
        else (255, 255, 255, 255))"
      unfolding paste_new_grid_at[OF wf assms(2,3)] in_paste_area_def by (auto simp: case_prod_unfold)
    also have "\<dots> = (if in_paste_area c x y
        then (case rgba_at c (x - offset_x c) (y - offset_y c) of (r, g, b, a) \<Rightarrow> (r, g, b, 255))
        else (255, 255, 255, 255))"
    proof (cases "in_paste_area c x y")
      case True
      from inside[OF this] show ?thesis
        using RGB wf_gridD[OF wf]
        by (simp add: rgba_at_def to_rgba_def case_prod_unfold)
    qed simp
    finally show ?thesis .
  next
    case (RGBA g)
    then have wf: "wf_grid (width c) (height c) g" using assms(1) by (simp add: wf_image_def)
    have "rgba_at (to_square_v2 c) x y =
        (case paste_grid (\<lambda>(r, g, b, a) d. (r, g, b)) (new_grid (square_side c) (square_side c) (255, 255, 255)) g
                (offset_x c, offset_y c) ! y ! x of (r, g, b) \<Rightarrow> (r, g, b, 255))"
      using sz RGBA
      by (simp add: rgba_at_def to_rgba_def to_square_v2_def Let_def square_side_def[symmetric]
          offset_x_def[symmetric] offset_y_def[symmetric] length_paste_grid length_nth_paste_grid
          case_prod_unfold)
    also have "\<dots> = (if in_paste_area c x y
        then (case g ! (y - offset_y c) ! (x - offset_x c) of (r, g, b, a) \<Rightarrow> (r, g, b, 255))
        else (255, 255, 255, 255))"
      unfolding paste_new_grid_at[OF wf assms(2,3)] in_paste_area_def by (auto simp: case_prod_unfold)
    also have "\<dots> = (if in_paste_area c x y
        then (case rgba_at c (x - offset_x c) (y - offset_y c) of (r, g, b, a) \<Rightarrow> (r, g, b, 255))
        else (255, 255, 255, 255))"
    proof (cases "in_paste_area c x y")
      case True
      from inside[OF this] show ?thesis
        using RGBA wf_gridD[OF wf]
        by (simp add: rgba_at_def to_rgba_def case_prod_unfold)
    qed simp
    finally show ?thesis .
  next
    case (L g)
    then have wf: "wf_grid (width c) (height c) g" using assms(1) by (simp add: wf_image_def)
    have "rgba_at (to_square_v2 c) x y =
        (case paste_grid (\<lambda>l d. (l, l, l)) (new_grid (square_side c) (square_side c) (255, 255, 255)) g
                (offset_x c, offset_y c) ! y ! x of (r, g, b) \<Rightarrow> (r, g, b, 255))"
      using sz L
      by (simp add: rgba_at_def to_rgba_def to_square_v2_def Let_def square_side_def[symmetric]
          offset_x_def[symmetric] offset_y_def[symmetric] length_paste_grid length_nth_paste_grid
          case_prod_unfold)
    also have "\<dots> = (if in_paste_area c x y
        then (case g ! (y - offset_y c) ! (x - offset_x c) of l \<Rightarrow> (l, l, l, 255))
        else (255, 255, 255, 255))"
      unfolding paste_new_grid_at[OF wf assms(2,3)] in_paste_area_def by (auto simp: case_prod_unfold)
    also have "\<dots> = (if in_paste_area c x y
        then (case rgba_at c (x - offset_x c) (y - offset_y c) of (r, g, b, a) \<Rightarrow> (r, g, b, 255))
        else (255, 255, 255, 255))"
    proof (cases "in_paste_area c x y")
      case True
      from inside[OF this] show ?thesis
        using L wf_gridD[OF wf]
        by (simp add: rgba_at_def to_rgba_def case_prod_unfold)
    qed simp
    finally show ?thesis .
  qed
qed

lemma offset_balance:
  "(n - w) div 2 \<le> n - w - (n - w) div 2 \<and> n - w - (n - w) div 2 \<le> (n - w) div 2 + (1::nat)"
  by arith

subsection \<open>Crops and padding\<close>

lemma size_crop:
  "width (crop img (x1, y1, x2, y2)) = nat (x2 - x1) \<and> height (crop img (x1, y1, x2, y2)) = nat (y2 - y1)"
  by (simp add: crop_def)


subsection \<open>When no box is returned\<close>

lemma mask_any_map:
  "mask_any (map (map P) g) \<longleftrightarrow> (\<exists>row\<in>set g. \<exists>p\<in>set row. P p)"
  by (simp add: mask_any_def vec_any_def list_ex_iff)

lemma mask_bounds_None_iff:
  assumes "wf_grid w h m"
  shows "mask_bounds m = None \<longleftrightarrow> \<not> mask_any m"
  using mask_any_axes[OF assms] by (auto simp: mask_bounds_def)

lemma tight_mask_any:
  "mask_any (tight_mask g) \<longleftrightarrow> (\<exists>row\<in>set g. \<exists>p\<in>set row. \<not> near_white p)"
  unfolding tight_mask_def by (auto simp: mask_any_map)

lemma array_size_zero: "array_size g = 0 \<longleftrightarrow> (\<forall>row\<in>set g. row = [])"
  by (simp add: array_size_def)

lemma tight_box_None_iff:
  assumes "wf_grid w h g"
  shows "tight_box bx by g = None \<longleftrightarrow> (\<forall>row\<in>set g. \<forall>p\<in>set row. near_white p)"
proof (cases "array_size g = 0")
  case True
  then show ?thesis by (auto simp: tight_box_def array_size_zero)
next
  case False
  have wf: "wf_grid w h (tight_mask g)" using assms by (simp add: wf_tight_mask)
  have "tight_box bx by g = None \<longleftrightarrow> mask_bounds (tight_mask g) = None"
    using False by (auto simp: tight_box_def split: option.splits)
  also have "\<dots> \<longleftrightarrow> \<not> mask_any (tight_mask g)" by (rule mask_bounds_None_iff[OF wf])
  also have "\<dots> \<longleftrightarrow> (\<forall>row\<in>set g. \<forall>p\<in>set row. near_white p)"
    unfolding tight_mask_any by blast
  finally show ?thesis .
qed

lemma absdiff_zero: "absdiff a b = 0 \<longleftrightarrow> a = b"
  by (auto simp: absdiff_def)

lemma get_content_bounds_None_iff:
  assumes "wf_image img"
  shows "get_content_bounds mix img = None \<longleftrightarrow>
           (\<forall>row\<in>set (to_rgb mix img). \<forall>p\<in>set row. p = (255, 255, 255))"
proof -
  let ?g = "to_rgb mix img"
  have wf: "wf_grid (width img) (height img) ?g" by (rule wf_to_rgb[OF assms])
  have "get_content_bounds mix img = None \<longleftrightarrow>
          \<not> mask_any (nonzero_mask (difference ?g (new_grid (width img) (height img) (255, 255, 255))))"
    by (simp add: get_content_bounds_def getbbox_def Let_def nonzero_mask_def)
  also have "\<dots> \<longleftrightarrow> (\<forall>row\<in>set ?g. \<forall>p\<in>set row. p = (255, 255, 255))"
    unfolding difference_white[OF wf] nonzero_mask_def
    by (auto simp: mask_any_map case_prod_unfold absdiff_zero prod_eq_iff)
  finally show ?thesis .
qed

lemma analyze_logo_None_iff:
  assumes "wf_image img"
  shows "analyze_logo img = Inl ''No content detected'' \<longleftrightarrow>
           (\<forall>row\<in>set (to_rgba img). \<forall>(r, g, b, alpha)\<in>set row.
               alpha \<le> 50 \<or> (240 \<le> r \<and> 240 \<le> g \<and> 240 \<le> b))"
proof -
  have wf: "wf_grid (width img) (height img) (alpha_mask (to_rgba img))"
    using wf_to_rgba[OF assms] by (simp add: alpha_mask_def wf_grid_map)
  have "analyze_logo img = Inl ''No content detected'' \<longleftrightarrow> mask_bounds (alpha_mask (to_rgba img)) = None"
    unfolding analyze_logo_unfold[OF assms] by (auto split: option.splits)
  also have "\<dots> \<longleftrightarrow> \<not> mask_any (alpha_mask (to_rgba img))" by (rule mask_bounds_None_iff[OF wf])
  also have "\<dots> \<longleftrightarrow> (\<forall>row\<in>set (to_rgba img). \<forall>(r, g, b, alpha)\<in>set row.
               alpha \<le> 50 \<or> (240 \<le> r \<and> 240 \<le> g \<and> 240 \<le> b))"
    unfolding alpha_mask_def mask_any_map by (auto simp: case_prod_unfold not_less)
  finally show ?thesis .
qed

subsection \<open>Uniform images\<close>








lemma find_tight_content_None_iff:
  assumes "wf_image img" "0 \<le> t"
  shows "find_tight_content mix t img = None \<longleftrightarrow>
     (\<forall>row\<in>set (interior t img (to_rgb mix img)). \<forall>p\<in>set row. near_white p)"
  unfolding find_tight_content_unfold
  by (rule tight_box_None_iff[OF wf_interior[OF wf_to_rgb[OF assms(1)] assms(2)]])

lemma interior_pixel:
  assumes "row \<in> set (interior t img g)" "p \<in> set row"
  shows "\<exists>r\<in>set g. p \<in> set r"
proof -
  from assms(1) obtain r0 where
    r0: "r0 \<in> set (py_slice (border_of (height img) t) (int (height img) - border_of (height img) t) g)"
    and row: "row = py_slice (border_of (width img) t) (int (width img) - border_of (width img) t) r0"
    unfolding interior_def by auto
  have "r0 \<in> set g" by (rule subsetD[OF set_py_slice r0])
  moreover have "p \<in> set r0" using assms(2) unfolding row by (rule subsetD[OF set_py_slice])
  ultimately show ?thesis by blast
qed

lemma set_new_grid: "row \<in> set (new_grid w h c) \<Longrightarrow> p \<in> set row \<Longrightarrow> p = c"
  by (auto simp: new_grid_def)

subsection \<open>A rectangular block of content\<close>

lemma mask_bounds_block:
  assumes wf: "wf_grid w h m"
    and x: "a < b" "b \<le> w" and y: "c < d" "d \<le> h"
    and m: "\<And>i j. i < h \<Longrightarrow> j < w \<Longrightarrow> m ! i ! j \<longleftrightarrow> (a \<le> j \<and> j < b \<and> c \<le> i \<and> i < d)"
  shows "mask_bounds m = Some (a, c, b - 1, d - 1)"
proof -
  have len: "length m = h" and rows: "\<And>i. i < h \<Longrightarrow> length (m ! i) = w"
    using wf_gridD[OF wf] by auto
  have ne: "m \<noteq> []" using len y by auto
  have hd: "length (hd m) = w" by (rule wf_grid_hd[OF wf ne])
  have r: "any_axis1 m ! i \<longleftrightarrow> c \<le> i \<and> i < d" if "i < h" for i
  proof -
    have "any_axis1 m ! i \<longleftrightarrow> (\<exists>j<w. m ! i ! j)"
      using that by (simp add: nth_any_axis1 len rows)
    also have "\<dots> \<longleftrightarrow> (\<exists>j<w. a \<le> j \<and> j < b \<and> c \<le> i \<and> i < d)"
      using m[OF that] by blast
    also have "\<dots> \<longleftrightarrow> c \<le> i \<and> i < d"
      using x by (auto intro: exI[of _ a])
    finally show ?thesis .
  qed
  have cl: "any_axis0 m ! j \<longleftrightarrow> a \<le> j \<and> j < b" if "j < w" for j
  proof -
    have "any_axis0 m ! j \<longleftrightarrow> (\<exists>i<h. m ! i ! j)"
      using that nth_any_axis0[OF ne, of j] by (simp add: hd len)
    also have "\<dots> \<longleftrightarrow> (\<exists>i<h. a \<le> j \<and> j < b \<and> c \<le> i \<and> i < d)"
      using m[OF _ that] by blast
    also have "\<dots> \<longleftrightarrow> a \<le> j \<and> j < b"
      using y by (auto intro: exI[of _ c])
    finally show ?thesis .
  qed
  have lr: "length (any_axis1 m) = h" by (simp add: length_any_axis1 len)
  have lc: "length (any_axis0 m) = w" using ne by (simp add: length_any_axis0 hd)
  have y0: "hd (where_true (any_axis1 m)) = c"
    by (rule hd_where_true_eqI) (use y r in \<open>simp_all add: lr\<close>)
  have y1: "last (where_true (any_axis1 m)) = d - 1"
    by (rule last_where_true_eqI) (use y r in \<open>auto simp: lr\<close>)
  have x0: "hd (where_true (any_axis0 m)) = a"
    by (rule hd_where_true_eqI) (use x cl in \<open>simp_all add: lc\<close>)
  have x1: "last (where_true (any_axis0 m)) = b - 1"
    by (rule last_where_true_eqI) (use x cl in \<open>auto simp: lc\<close>)
  have "m ! c ! a" using m[of c a] x y by simp
  then have any: "mask_any m" unfolding mask_any_iff using x y len rows[of c]
    by (intro exI[of _ c] conjI exI[of _ a]) simp_all
  from mask_any_axes[OF wf any] any show ?thesis
    by (simp add: mask_bounds_def x0 x1 y0 y1)
qed

lemma wf_crop: "wf_image (crop img (x1, y1, x2, y2))"
  by (simp add: wf_image_def crop_def crop_grid_def wf_grid_def list_all_iff split: raster.splits)

lemma paste_full:
  assumes "wf_grid n n g"
  shows "paste_grid (\<lambda>s d. s) (new_grid n n c) g (0, 0) = g"
proof (rule nth_equalityI)
  have len: "length g = n" and rows: "\<And>i. i < n \<Longrightarrow> length (g ! i) = n"
    using wf_gridD[OF assms] by auto
  show l: "length (paste_grid (\<lambda>s d. s) (new_grid n n c) g (0, 0)) = length g"
    by (simp add: length_paste_grid new_grid_def len)
  fix y assume "y < length (paste_grid (\<lambda>s d. s) (new_grid n n c) g (0, 0))"
  then have y: "y < n" using l len by simp
  show "paste_grid (\<lambda>s d. s) (new_grid n n c) g (0, 0) ! y = g ! y"
  proof (rule nth_equalityI)
    show l2: "length (paste_grid (\<lambda>s d. s) (new_grid n n c) g (0, 0) ! y) = length (g ! y)"
      using y by (simp add: length_nth_paste_grid new_grid_def rows)
    fix x assume "x < length (paste_grid (\<lambda>s d. s) (new_grid n n c) g (0, 0) ! y)"
    then have x: "x < n" using l2 rows[OF y] by simp
    show "paste_grid (\<lambda>s d. s) (new_grid n n c) g (0, 0) ! y ! x = g ! y ! x"
      unfolding paste_new_grid_at[OF assms x y] using x y by simp
  qed
qed

lemma to_square_id:
  assumes "wf_image c" "pixels c = RGB g" "width c = height c"
  shows "to_square mix c = c"
proof -
  have wf: "wf_grid (height c) (height c) g"
    using assms by (simp add: wf_image_def)
  have "to_square mix c = \<lparr>width = width c, height = width c, pixels = RGB g\<rparr>"
    using assms(2,3) by (simp add: to_square_def Let_def paste_full[OF wf])
  also have "\<dots> = c" using assms(2,3) by (cases c) simp
  finally show ?thesis .
qed

lemma absdiff_white: "absdiff 0 255 = (255 :: byte)" "absdiff 255 255 = (0 :: byte)"
  by (simp_all add: absdiff_def)

lemma square_image_bounds: "get_content_bounds mix square_image = Some (40, 40, 60, 60)"
proof -
  let ?f = "\<lambda>y x. if 40 \<le> x \<and> x < 60 \<and> 40 \<le> y \<and> y < 60
                          then (0 :: byte, 0 :: byte, 0 :: byte) else (255, 255, 255)"
  let ?g = "map (\<lambda>y. map (?f y) [0..<100]) [0..<(100 :: nat)]"
  let ?d = "difference ?g (new_grid 100 100 (255, 255, 255))"
  have rgb: "to_rgb mix square_image = ?g" by (simp add: to_rgb_def square_image_def)
  have wfg: "wf_grid 100 100 ?g" by (simp add: wf_grid_def list_all_iff)
  have wfd: "wf_grid 100 100 ?d" by (rule wf_difference[OF wfg])
  have wfm: "wf_grid 100 100 (nonzero_mask ?d)" using wfd by (simp add: wf_nonzero_mask)
  have px: "nonzero_mask ?d ! i ! j \<longleftrightarrow> (40 \<le> j \<and> j < 60 \<and> 40 \<le> i \<and> i < 60)"
    if "i < 100" "j < 100" for i j
    using that unfolding difference_white[OF wfg] nonzero_mask_def
    by (simp add: absdiff_white del: upt_Suc)
  have "mask_bounds (nonzero_mask ?d) = Some (40, 40, 60 - 1, 60 - 1)"
    by (rule mask_bounds_block[OF wfm _ _ _ _ px]) simp_all
  then show ?thesis
    unfolding get_content_bounds_def Let_def rgb
    by (simp add: square_image_def getbbox_unfold[OF wfd])
qed

section \<open>The claims\<close>

subsection \<open>C1\<close>

text \<open>
  C1 (as amended).  For a well-formed image and a non-negative border threshold, a box
  returned by \<open>get_content_bounds\<close>, \<open>find_tight_content\<close> or
  \<open>remove_border_and_find_content\<close> (exclusive right and lower edge) satisfies
  \<open>0 \<le> x_min < x_max \<le> width\<close> and \<open>0 \<le> y_min < y_max \<le> height\<close>; the
  \<open>content_bounds\<close> reported by \<open>analyze_logo\<close> are inclusive and satisfy
  \<open>0 \<le> x_min \<le> x_max < width\<close> and \<open>0 \<le> y_min \<le> y_max < height\<close>.
\<close>

theorem content_box_within_image:
  assumes "wf_image img" and "0 \<le> border_threshold"
  shows "(\<forall>b. get_content_bounds mix img = Some b \<longrightarrow> box_within img b) \<and>
         (\<forall>b. find_tight_content mix border_threshold img = Some b \<longrightarrow> box_within img b) \<and>
         (\<forall>b. remove_border_and_find_content mix border_threshold img = Some b \<longrightarrow> box_within img b) \<and>
         (\<forall>a. analyze_logo img = Inr a \<longrightarrow> bounds_within img (content_bounds a))"
proof -
  have "box_within img b" if "remove_border_and_find_content mix border_threshold img = Some b" for b
    using that find_tight_content_within[OF assms, of mix b]
    by (simp add: remove_border_unfold find_tight_content_unfold)
  then show ?thesis
    using get_content_bounds_within[OF assms(1)] find_tight_content_within[OF assms]
      analyze_logo_within[OF assms(1)] by blast
qed

theorem content_box_within_image_witness:
  "wf_image dot_image \<and> 0 \<le> (1 / 3 :: rat) \<and>
   get_content_bounds round_mix dot_image = Some (1, 1, 2, 2) \<and>
   find_tight_content round_mix (1 / 3) dot_image = Some (1, 1, 2, 2) \<and>
   remove_border_and_find_content round_mix (1 / 3) dot_image = Some (1, 1, 2, 2) \<and>
   box_within dot_image (1, 1, 2, 2) \<and>
   (\<exists>a. analyze_logo dot_image = Inr a \<and> content_bounds a = (1, 1, 1, 1) \<and>
        bounds_within dot_image (1, 1, 1, 1))"
proof -
  have wf: "wf_image dot_image" by code_simp
  have t: "0 \<le> (1 / 3 :: rat)" by simp
  have g: "get_content_bounds round_mix dot_image = Some (1, 1, 2, 2)" by code_simp
  have f: "find_tight_content round_mix (1 / 3) dot_image = Some (1, 1, 2, 2)" by code_simp
  have r: "remove_border_and_find_content round_mix (1 / 3) dot_image = Some (1, 1, 2, 2)"
    by code_simp
  have a: "analyze_logo dot_image =
             Inr \<lparr>size_of = (3, 3), content_bounds = (1, 1, 1, 1), content_size = (1, 1)\<rparr>"
    by code_simp
  from content_box_within_image[OF wf t, of round_mix] g a wf t f r show ?thesis
    by auto
qed

text \<open>
  C1 as stated fails for \<open>analyze_logo\<close>: its bounds are inclusive, so content that is one
  pixel wide has \<open>x_min = x_max\<close>.
\<close>

theorem analyze_logo_bounds_counterexample:
  "analyze_logo dot_image =
     Inr \<lparr>size_of = (3, 3), content_bounds = (1, 1, 1, 1), content_size = (1, 1)\<rparr> \<and>
   \<not> box_within dot_image (1, 1, 1, 1)"
proof -
  have "analyze_logo dot_image =
          Inr \<lparr>size_of = (3, 3), content_bounds = (1, 1, 1, 1), content_size = (1, 1)\<rparr>"
    by code_simp
  then show ?thesis by (simp add: box_within_def)
qed

subsection \<open>C2\<close>




subsection \<open>C3\<close>



subsection \<open>C4\<close>



subsection \<open>C5\<close>

text \<open>
  C5.  The 100 x 100 white image with a black square on the pixels \<open>40 \<le> x, y < 60\<close>:
  \<open>get_content_bounds\<close> (which ignores no border) returns \<open>(40, 40, 60, 60)\<close>; a padding of
  5 percent is one pixel per side and gives \<open>(39, 39, 61, 61)\<close>; the crop is 22 x 22 and
  the square canvas step returns it unchanged, so \<open>crop_with_padding\<close> returns that crop.
\<close>

theorem round_trip_scenario:
  "get_content_bounds mix square_image = Some (40, 40, 60, 60) \<and>
   padded_bounds square_image 5 (40, 40, 60, 60) = (39, 39, 61, 61) \<and>
   width (crop square_image (39, 39, 61, 61)) = 22 \<and>
   height (crop square_image (39, 39, 61, 61)) = 22 \<and>
   to_square mix (crop square_image (39, 39, 61, 61)) = crop square_image (39, 39, 61, 61) \<and>
   crop_with_padding mix 5 square_image = crop square_image (39, 39, 61, 61)"
proof -
  have pad: "padded_bounds square_image 5 (40, 40, 60, 60) = (39, 39, 61, 61)"
    by (simp add: padded_bounds_def Let_def py_int_def square_image_def)
  have sz: "width (crop square_image (39, 39, 61, 61)) = 22"
    "height (crop square_image (39, 39, 61, 61)) = 22"
    by (simp_all add: size_crop)
  have mode: "\<exists>g. pixels (crop square_image (39, 39, 61, 61)) = RGB g"
    by (simp add: crop_def square_image_def)
  then obtain g where g: "pixels (crop square_image (39, 39, 61, 61)) = RGB g" ..
  have sq: "to_square mix (crop square_image (39, 39, 61, 61)) = crop square_image (39, 39, 61, 61)"
    by (rule to_square_id[OF wf_crop g]) (simp add: sz)
  show ?thesis
    using square_image_bounds[of mix] pad sz sq by (simp add: crop_with_padding_def)
qed

subsection \<open>C6\<close>

text \<open>
  C6 (as amended).  The square canvas has width and height \<open>max w h\<close>; the crop is pasted
  at offset \<open>((max w h - w) div 2, (max w h - h) div 2)\<close>, so the margin after the crop
  is the margin before it or one pixel more; every canvas pixel outside the pasted area
  is white.  Inside the pasted area, \<open>crop_logos.py\<close> pastes an RGBA crop through its own
  alpha band: a pixel with alpha 255 (every pixel of an RGB or L crop) keeps its value, any
  other pixel is mixed with the white canvas.  The other script copies the colour bands and
  its canvas has no alpha band.
\<close>

theorem square_canvas:
  assumes "wf_image c" and "x < square_side c" and "y < square_side c"
  shows "width (to_square mix c) = max (width c) (height c) \<and>
         height (to_square mix c) = max (width c) (height c) \<and>
         width (to_square_v2 c) = max (width c) (height c) \<and>
         height (to_square_v2 c) = max (width c) (height c) \<and>
         offset_x c = (max (width c) (height c) - width c) div 2 \<and>
         offset_y c = (max (width c) (height c) - height c) div 2 \<and>
         offset_x c \<le> square_side c - width c - offset_x c \<and>
         square_side c - width c - offset_x c \<le> offset_x c + 1 \<and>
         offset_y c \<le> square_side c - height c - offset_y c \<and>
         square_side c - height c - offset_y c \<le> offset_y c + 1 \<and>
         rgba_at (to_square mix c) x y =
           (if in_paste_area c x y
            then (case rgba_at c (x - offset_x c) (y - offset_y c) of (r, g, b, a) \<Rightarrow>
                    (paste_mask mix a 255 r, paste_mask mix a 255 g,
                     paste_mask mix a 255 b, paste_mask mix a 255 a))
            else (255, 255, 255, 255)) \<and>
         (in_paste_area c x y \<and> snd (snd (snd (rgba_at c (x - offset_x c) (y - offset_y c)))) = 255
            \<longrightarrow> rgba_at (to_square mix c) x y = rgba_at c (x - offset_x c) (y - offset_y c)) \<and>
         rgba_at (to_square_v2 c) x y =
           (if in_paste_area c x y
            then (case rgba_at c (x - offset_x c) (y - offset_y c) of (r, g, b, a) \<Rightarrow> (r, g, b, 255))
            else (255, 255, 255, 255))"
proof -
  have sizes: "width (to_square mix c) = max (width c) (height c)"
    "height (to_square mix c) = max (width c) (height c)"
    "width (to_square_v2 c) = max (width c) (height c)"
    "height (to_square_v2 c) = max (width c) (height c)"
    by (simp_all add: width_to_square height_to_square width_to_square_v2 height_to_square_v2
        square_side_def)
  have offs: "offset_x c = (max (width c) (height c) - width c) div 2"
    "offset_y c = (max (width c) (height c) - height c) div 2"
    by (simp_all add: offset_x_def offset_y_def square_side_def)
  have bal: "offset_x c \<le> square_side c - width c - offset_x c"
    "square_side c - width c - offset_x c \<le> offset_x c + 1"
    "offset_y c \<le> square_side c - height c - offset_y c"
    "square_side c - height c - offset_y c \<le> offset_y c + 1"
    unfolding offset_x_def offset_y_def using offset_balance by blast+
  note px = rgba_at_to_square[OF assms, of mix]
  have keep: "rgba_at (to_square mix c) x y = rgba_at c (x - offset_x c) (y - offset_y c)"
    if "in_paste_area c x y" "snd (snd (snd (rgba_at c (x - offset_x c) (y - offset_y c)))) = 255"
  proof -
    obtain r g b a where "rgba_at c (x - offset_x c) (y - offset_y c) = (r, g, b, a)"
      by (metis prod_cases4)
    with that show ?thesis unfolding px by (simp add: paste_mask_opaque)
  qed
  show ?thesis
    using sizes offs bal px keep rgba_at_to_square_v2[OF assms] by blast
qed

theorem square_canvas_witness:
  "wf_image bar_crop \<and> 1 < square_side bar_crop \<and>
   width (to_square round_mix bar_crop) = 3 \<and> height (to_square round_mix bar_crop) = 3 \<and>
   offset_x bar_crop = 0 \<and> offset_y bar_crop = 1 \<and> in_paste_area bar_crop 1 1 \<and>
   rgba_at bar_crop 1 0 = (4, 5, 6, 255) \<and>
   rgba_at (to_square round_mix bar_crop) 1 1 = (4, 5, 6, 255) \<and>
   rgba_at (to_square_v2 bar_crop) 1 1 = (4, 5, 6, 255)"
proof -
  have wf: "wf_image bar_crop" by code_simp
  have s: "1 < square_side bar_crop" by code_simp
  have o: "offset_x bar_crop = 0" "offset_y bar_crop = 1" by code_simp+
  have a: "in_paste_area bar_crop 1 1" by code_simp
  have p: "rgba_at bar_crop 1 0 = (4, 5, 6, 255)" by code_simp
  have w: "width bar_crop = 3" "height bar_crop = 1" by code_simp+
  from square_canvas[OF wf s s, of round_mix] show ?thesis
    unfolding o using wf s a p w o by (simp add: paste_mask_opaque)
qed

text \<open>
  C6 as stated fails in \<open>crop_logos.py\<close>: a transparent pixel of an RGBA crop is not kept,
  the white canvas shows through.
\<close>

theorem square_canvas_counterexample:
  "rgba_at ghost_crop 0 0 = (10, 20, 30, 0) \<and>
   in_paste_area ghost_crop 0 0 \<and>
   rgba_at (to_square round_mix ghost_crop) 0 0 = (255, 255, 255, 255)"
  by code_simp

subsection \<open>C7\<close>

text \<open>
  C7 (as amended).  An image of one uniform colour yields no content box when the colour
  is background under the rule that is applied last: near white (all channels above 240)
  for \<open>find_tight_content\<close> and \<open>remove_border_and_find_content\<close>, pure white for
  \<open>get_content_bounds\<close>, and alpha at most 50 or all colour channels at least 240 for
  \<open>analyze_logo\<close>.  In particular a pure white opaque image yields None everywhere.
\<close>

theorem uniform_background_no_content:
  assumes "wf_image img" and "0 \<le> t"
  shows "(to_rgb mix img = new_grid (width img) (height img) (cr, cg, cb) \<and>
            240 < cr \<and> 240 < cg \<and> 240 < cb
          \<longrightarrow> find_tight_content mix t img = None \<and>
              remove_border_and_find_content mix t img = None) \<and>
         (to_rgb mix img = new_grid (width img) (height img) (255, 255, 255)
          \<longrightarrow> get_content_bounds mix img = None) \<and>
         (to_rgba img = new_grid (width img) (height img) (r, g, b, a) \<and>
            (a \<le> 50 \<or> (240 \<le> r \<and> 240 \<le> g \<and> 240 \<le> b))
          \<longrightarrow> analyze_logo img = Inl ''No content detected'')"
proof -
  have tight: "find_tight_content mix t img = None \<and> remove_border_and_find_content mix t img = None"
    if u: "to_rgb mix img = new_grid (width img) (height img) (cr, cg, cb)"
      and c: "240 < cr" "240 < cg" "240 < cb"
  proof -
    have "near_white p" if "row \<in> set (interior t img (to_rgb mix img))" "p \<in> set row" for row p
    proof -
      from interior_pixel[OF that] obtain r0 where "r0 \<in> set (to_rgb mix img)" "p \<in> set r0"
        by blast
      then have "p = (cr, cg, cb)" unfolding u by (rule set_new_grid)
      then show ?thesis using c by (simp add: near_white_def)
    qed
    then have "find_tight_content mix t img = None"
      unfolding find_tight_content_None_iff[OF assms] by blast
    then show ?thesis by (simp add: remove_border_unfold find_tight_content_unfold)
  qed
  have white: "get_content_bounds mix img = None"
    if u: "to_rgb mix img = new_grid (width img) (height img) (255, 255, 255)"
    unfolding get_content_bounds_None_iff[OF assms(1)] u
    by (intro ballI) (rule set_new_grid)
  have alpha: "analyze_logo img = Inl ''No content detected''"
    if u: "to_rgba img = new_grid (width img) (height img) (r, g, b, a)"
      and c: "a \<le> 50 \<or> (240 \<le> r \<and> 240 \<le> g \<and> 240 \<le> b)"
    unfolding analyze_logo_None_iff[OF assms(1)] u
  proof (intro ballI)
    fix row p assume "row \<in> set (new_grid (width img) (height img) (r, g, b, a))" "p \<in> set row"
    then have "p = (r, g, b, a)" by (rule set_new_grid)
    then show "case p of (r, g, b, alpha) \<Rightarrow> alpha \<le> 50 \<or> (240 \<le> r \<and> 240 \<le> g \<and> 240 \<le> b)"
      using c by simp
  qed
  from tight white alpha show ?thesis by blast
qed

theorem uniform_background_no_content_witness:
  "wf_image white_image \<and> 0 \<le> (1 / 20 :: rat) \<and>
   to_rgb round_mix white_image = new_grid (width white_image) (height white_image) (255, 255, 255) \<and>
   to_rgba white_image = new_grid (width white_image) (height white_image) (255, 255, 255, 255) \<and>
   find_tight_content round_mix (1 / 20) white_image = None \<and>
   remove_border_and_find_content round_mix (1 / 20) white_image = None \<and>
   get_content_bounds round_mix white_image = None \<and>
   analyze_logo white_image = Inl ''No content detected''"
proof -
  have wf: "wf_image white_image" by code_simp
  have t: "0 \<le> (1 / 20 :: rat)" by simp
  have u: "to_rgb round_mix white_image = new_grid (width white_image) (height white_image) (255, 255, 255)"
    by code_simp
  have v: "to_rgba white_image = new_grid (width white_image) (height white_image) (255, 255, 255, 255)"
    by code_simp
  have c: "(240 :: byte) < 255" "(240 :: byte) \<le> 255" by simp_all
  from uniform_background_no_content[OF wf t, of round_mix 255 255 255 255 255 255 255] wf t u v c
  show ?thesis by simp
qed

text \<open>
  C7 as stated fails for a uniform near-black image in the border scripts: every pixel is
  background for the first mask (near white or near black), yet the retry returns a box.
\<close>

theorem uniform_background_counterexample:
  "to_rgb round_mix dark_image = new_grid 2 2 (0, 0, 0) \<and> (0 :: byte) < 15 \<and>
   \<not> mask_any (mask_not (mask_or
        (map (map (\<lambda>(r, g, b). 240 < r \<and> 240 < g \<and> 240 < b)) (to_rgb round_mix dark_image))
        (map (map (\<lambda>(r, g, b). r < 15 \<and> g < 15 \<and> b < 15)) (to_rgb round_mix dark_image)))) \<and>
   find_tight_content round_mix (1 / 20) dark_image = Some (0, 0, 2, 2) \<and>
   remove_border_and_find_content round_mix (1 / 20) dark_image = Some (0, 0, 2, 2)"
  by code_simp

subsection \<open>C8\<close>



subsection \<open>C9\<close>

text \<open>
  C9.  A box returned by one of the three content-detection functions is at least one
  pixel wide and one pixel high, so the padding and squaring steps never see a content
  size of zero.
\<close>

theorem content_box_extent:
  assumes "wf_image img"
  shows "(get_content_bounds mix img = Some (x1, y1, x2, y2) \<longrightarrow> 1 \<le> x2 - x1 \<and> 1 \<le> y2 - y1) \<and>
         (find_tight_content mix t img = Some (x1, y1, x2, y2) \<longrightarrow> 1 \<le> x2 - x1 \<and> 1 \<le> y2 - y1) \<and>
         (remove_border_and_find_content mix t img = Some (x1, y1, x2, y2)
            \<longrightarrow> 1 \<le> x2 - x1 \<and> 1 \<le> y2 - y1)"
  using get_content_bounds_extent[OF assms] tight_box_extent
  unfolding find_tight_content_unfold remove_border_unfold by blast

theorem content_box_extent_witness:
  "wf_image dot_image \<and>
   get_content_bounds round_mix dot_image = Some (1, 1, 2, 2) \<and>
   find_tight_content round_mix (1 / 20) dot_image = Some (1, 1, 2, 2) \<and>
   remove_border_and_find_content round_mix (1 / 20) dot_image = Some (1, 1, 2, 2) \<and>
   (1::int) \<le> 2 - 1"
proof -
  have wf: "wf_image dot_image" by code_simp
  have g: "get_content_bounds round_mix dot_image = Some (1, 1, 2, 2)" by code_simp
  have f: "find_tight_content round_mix (1 / 20) dot_image = Some (1, 1, 2, 2)" by code_simp
  have r: "remove_border_and_find_content round_mix (1 / 20) dot_image = Some (1, 1, 2, 2)"
    by code_simp
  from content_box_extent[OF wf, of round_mix 1 1 2 2 "1 / 20"] wf g f r show ?thesis by simp
qed

subsection \<open>C10\<close>

text \<open>
  C10.  When content detection returns None, \<open>crop_with_padding\<close> (both scripts) and
  \<open>crop_tight_with_padding\<close> return the input image itself.
\<close>

theorem no_content_returns_input:
  "(get_content_bounds mix img = None \<longrightarrow> crop_with_padding mix padding_percent img = img) \<and>
   (find_tight_content mix (1 / 20) img = None
      \<longrightarrow> crop_tight_with_padding mix padding_percent img = img) \<and>
   (remove_border_and_find_content mix (1 / 20) img = None
      \<longrightarrow> crop_with_padding_v2 mix padding_percent img = img)"
  by (simp add: crop_with_padding_def crop_tight_with_padding_def crop_with_padding_v2_def)

theorem no_content_returns_input_witness:
  "get_content_bounds round_mix white_image = None \<and>
   find_tight_content round_mix (1 / 20) white_image = None \<and>
   remove_border_and_find_content round_mix (1 / 20) white_image = None \<and>
   crop_with_padding round_mix 8 white_image = white_image \<and>
   crop_tight_with_padding round_mix 5 white_image = white_image \<and>
   crop_with_padding_v2 round_mix 10 white_image = white_image"
proof -
  have g: "get_content_bounds round_mix white_image = None" by code_simp
  have f: "find_tight_content round_mix (1 / 20) white_image = None" by code_simp
  have r: "remove_border_and_find_content round_mix (1 / 20) white_image = None" by code_simp
  from no_content_returns_input[of round_mix white_image 8]
       no_content_returns_input[of round_mix white_image 5]
       no_content_returns_input[of round_mix white_image 10] g f r
  show ?thesis by simp
qed


end
